theory Spec2Isabelle
  imports Complex_Main
begin

section \<open>Data model (src/lib/types/index.ts)\<close>

text \<open>
  The TypeScript string-literal unions become datatypes and the interfaces become
  records. JavaScript numbers that the loop only counts with (\<open>currentIteration\<close>,
  \<open>maxIterations\<close>, clock readings, lengths) are natural numbers; \<open>priority\<close> is an
  integer and \<open>temperature\<close> a rational. An optional property is an \<open>option\<close>.
  The optional \<open>metadata\<close> of a log entry is never written by the code below and lives
  in the extension slot of the record. Field names that clash with HOL constants or
  keywords carry a prefix (\<open>t_id\<close>, \<open>l_id\<close>, \<open>l_type\<close>).
\<close>

datatype TaskStatus = Pending | Running | Completed | Failed

datatype LogType = Info | Success | Warning | Error | TaskLog | Result | Thinking | Milestone

datatype AgentMode = Simulated | AI

datatype Theme = Light | Dark

datatype Provider = Openrouter | Openai | Anthropic

record Task =
  t_id :: string
  description :: string
  status :: TaskStatus
  priority :: int
  createdAt :: nat
  completedAt :: "nat option"
  result :: "string option"
  dependencies :: "string list option"

record LogEntry =
  l_id :: string
  timestamp :: nat
  l_type :: LogType
  message :: string
  icon :: string

record Settings =
  apiKey :: string
  provider :: Provider
  model :: string
  temperature :: rat
  iterationDelay :: nat
  maxTokens :: nat
  enableSounds :: bool
  autoScroll :: bool
  settingsMaxIterations :: nat

record AgentState =
  objective :: string
  tasks :: "Task list"
  executionLog :: "LogEntry list"
  isRunning :: bool
  isPaused :: bool
  currentIteration :: nat
  maxIterations :: nat
  mode :: AgentMode
  settings :: Settings
  theme :: Theme
  sidebarCollapsed :: bool
  selectedTask :: "string option"
  sessionId :: string

section \<open>Strings the code builds\<close>

text \<open>
  \<open>Date.now().toString()\<close> and the numbers interpolated into template literals are
  decimal numerals. The pictographs of the messages are written as their UTF-8 bytes.
\<close>

definition digit :: "nat \<Rightarrow> char" where
  "digit d = char_of (48 + d)"

fun decimal :: "nat \<Rightarrow> string" where
  "decimal n = (if n < 10 then [digit n] else decimal (n div 10) @ [digit (n mod 10)])"

declare decimal.simps [simp del]

text \<open>The number a decimal numeral denotes.\<close>

definition decimalValue :: "string \<Rightarrow> nat" where
  "decimalValue cs = foldl (\<lambda>acc ch. 10 * acc + (of_char ch - 48)) 0 cs"

definition icon_target :: string where
  "icon_target = [CHR 0xF0, CHR 0x9F, CHR 0x8E, CHR 0xAF]"

definition icon_memo :: string where
  "icon_memo = [CHR 0xF0, CHR 0x9F, CHR 0x93, CHR 0x9D]"

definition icon_check :: string where
  "icon_check = [CHR 0xE2, CHR 0x9C, CHR 0x85]"

definition icon_play :: string where
  "icon_play = [CHR 0xE2, CHR 0x96, CHR 0xB6, CHR 0xEF, CHR 0xB8, CHR 0x8F]"

definition icon_thought :: string where
  "icon_thought = [CHR 0xF0, CHR 0x9F, CHR 0x92, CHR 0xAD]"

definition icon_lens :: string where
  "icon_lens = [CHR 0xF0, CHR 0x9F, CHR 0x94, CHR 0x8D]"

definition icon_chart :: string where
  "icon_chart = [CHR 0xF0, CHR 0x9F, CHR 0x93, CHR 0x8A]"

definition icon_cross :: string where
  "icon_cross = [CHR 0xE2, CHR 0x9D, CHR 0x8C]"

section \<open>The store (agentStore.ts, src/unnamed/part_001 lines 423--554)\<close>

text \<open>
  Every action of the zustand store is \<open>set\<close> with a partial state: the named fields
  are replaced and all others kept, and the previous state object is left as it was
  (a caller that holds it keeps reading the old fields). Each action is therefore a
  function from the live state to the next live state. The readings of \<open>Date.now()\<close>
  and \<open>Math.random()\<close> are arguments.
\<close>

record Stamp =
  idClock :: nat
  idRandom :: string
  tsClock :: nat

record LogInput =
  in_type :: LogType
  in_message :: string
  in_icon :: string

definition defaultSettings :: Settings where
  "defaultSettings = \<lparr> apiKey = '''', provider = Openrouter,
     model = ''meta-llama/llama-3.1-8b-instruct:free'', temperature = 7 / 10,
     iterationDelay = 1000, maxTokens = 1000, enableSounds = False, autoScroll = True,
     settingsMaxIterations = 20 \<rparr>"

definition initialState :: "nat \<Rightarrow> AgentState" where
  "initialState now = \<lparr> objective = '''', tasks = [], executionLog = [],
     isRunning = False, isPaused = False, currentIteration = 0, maxIterations = 20,
     mode = Simulated, settings = defaultSettings, theme = Dark,
     sidebarCollapsed = False, selectedTask = None, sessionId = decimal now \<rparr>"

definition setObjective :: "string \<Rightarrow> AgentState \<Rightarrow> AgentState" where
  "setObjective text s = s\<lparr> objective := text \<rparr>"

definition startAgent :: "AgentState \<Rightarrow> AgentState" where
  "startAgent s = s\<lparr> isRunning := True, isPaused := False \<rparr>"

definition pauseAgent :: "AgentState \<Rightarrow> AgentState" where
  "pauseAgent s = s\<lparr> isPaused := True \<rparr>"

definition resetAgent :: "nat \<Rightarrow> AgentState \<Rightarrow> AgentState" where
  "resetAgent now s = s\<lparr> objective := '''', tasks := [], executionLog := [],
     isRunning := False, isPaused := False, currentIteration := 0,
     selectedTask := None, sessionId := decimal now \<rparr>"

definition addTask :: "Task \<Rightarrow> AgentState \<Rightarrow> AgentState" where
  "addTask task s = s\<lparr> tasks := tasks s @ [task] \<rparr>"

text \<open>
  The hooks call \<open>updateTask\<close> with an object literal that names the properties to
  overwrite; the partial task is a function on tasks that overwrites them.
\<close>

definition updateTask :: "string \<Rightarrow> (Task \<Rightarrow> Task) \<Rightarrow> AgentState \<Rightarrow> AgentState" where
  "updateTask taskId updates s =
     s\<lparr> tasks := map (\<lambda>task. if t_id task = taskId then updates task else task) (tasks s) \<rparr>"

definition completeTask :: "nat \<Rightarrow> string \<Rightarrow> string \<Rightarrow> AgentState \<Rightarrow> AgentState" where
  "completeTask now taskId res s =
     s\<lparr> tasks := map (\<lambda>task. if t_id task = taskId
                         then task\<lparr> status := Completed, result := Some res, completedAt := Some now \<rparr>
                         else task) (tasks s) \<rparr>"

definition addLog :: "Stamp \<Rightarrow> LogInput \<Rightarrow> AgentState \<Rightarrow> AgentState" where
  "addLog st entry s =
     s\<lparr> executionLog := executionLog s @
          [\<lparr> l_id = ''log-'' @ decimal (idClock st) @ ''-'' @ idRandom st,
             timestamp = tsClock st, l_type = in_type entry,
             message = in_message entry, icon = in_icon entry \<rparr>] \<rparr>"

definition incrementIteration :: "AgentState \<Rightarrow> AgentState" where
  "incrementIteration s = s\<lparr> currentIteration := currentIteration s + 1 \<rparr>"

definition updateSettings :: "(Settings \<Rightarrow> Settings) \<Rightarrow> AgentState \<Rightarrow> AgentState" where
  "updateSettings partial s = s\<lparr> settings := partial (settings s) \<rparr>"

definition setMode :: "AgentMode \<Rightarrow> AgentState \<Rightarrow> AgentState" where
  "setMode m s = s\<lparr> mode := m \<rparr>"

definition toggleTheme :: "AgentState \<Rightarrow> AgentState" where
  "toggleTheme s = s\<lparr> theme := (if theme s = Dark then Light else Dark) \<rparr>"

definition toggleSidebar :: "AgentState \<Rightarrow> AgentState" where
  "toggleSidebar s = s\<lparr> sidebarCollapsed := \<not> sidebarCollapsed s \<rparr>"

definition setSelectedTask :: "string option \<Rightarrow> AgentState \<Rightarrow> AgentState" where
  "setSelectedTask taskId s = s\<lparr> selectedTask := taskId \<rparr>"

section \<open>Collaborators that are not part of the sources\<close>

text \<open>
  \<open>services/taskGenerator\<close> and \<open>services/apiService\<close> are imported by the hooks but
  are not among the sources. The three generator functions are parameters of the loop
  and are taken to return normally and to leave their arguments as they are; what an
  awaited executor call delivers is an input of the continuation.
\<close>

record Services =
  generateInitialTasks :: "string \<Rightarrow> Task list"
  generateFollowUpTasks :: "Task \<Rightarrow> string \<Rightarrow> string \<Rightarrow> Task list"
  prioritizeTasks :: "Task list \<Rightarrow> Task list"

text \<open>
  A thrown value is an \<open>Error\<close> object with its message or anything else. An awaited
  call delivers the response object of \<open>executeTaskWithAI\<close> (its \<open>content\<close> and its
  optional \<open>error\<close>), the text of \<open>simulateTaskExecution\<close>, or a rejection.
\<close>

datatype Thrown = ErrorObject string | OtherValue

datatype Awaited = AIResponse string "string option" | SimulatedText string | Rejects Thrown

definition errorMessage :: "Thrown \<Rightarrow> string" where
  "errorMessage e = (case e of ErrorObject m \<Rightarrow> m | OtherValue \<Rightarrow> ''Unknown error'')"

section \<open>The hook reading the store through getState (part_001 lines 1--197)\<close>

definition hasPendingDependencies :: "Task \<Rightarrow> Task list \<Rightarrow> bool" where
  "hasPendingDependencies task allTasks =
     (case dependencies task of
        None \<Rightarrow> False
      | Some deps \<Rightarrow>
          if deps = [] then False
          else list_ex (\<lambda>depId.
                 case find (\<lambda>t. t_id t = depId) allTasks of
                   None \<Rightarrow> False
                 | Some depTask \<Rightarrow> status depTask \<noteq> Completed) deps)"

text \<open>
  The hook owns the interval handle \<open>agentLoopRef\<close> (set or null) next to the store.
  \<open>executeAgentIteration\<close> is an async function: it runs synchronously up to its
  \<open>await\<close> and is continued when the awaited call settles. What it holds across the
  \<open>await\<close> are the state object it read at its start, the selected task and the
  branch it awaits in.
\<close>

record Hook =
  store :: AgentState
  agentLoopRef :: bool

record Suspended =
  heldState :: AgentState
  nextTask :: Task
  viaAI :: bool

datatype Tick = Stopped | BudgetHalt | Seeded | AllCompleted | NoOp | Awaiting Suspended

definition stopAgentLoop :: "Hook \<Rightarrow> Hook" where
  "stopAgentLoop h = h\<lparr> agentLoopRef := False \<rparr>"

definition selectNext :: "Services \<Rightarrow> AgentState \<Rightarrow> Task option" where
  "selectNext sv state =
     find (\<lambda>t. status t = Pending \<and> \<not> hasPendingDependencies t (tasks state))
       (prioritizeTasks sv (tasks state))"

definition executeAgentIteration :: "Services \<Rightarrow> (nat \<Rightarrow> Stamp) \<Rightarrow> Hook \<Rightarrow> Tick \<times> Hook" where
  "executeAgentIteration sv st h =
     (let state = store h in
      if \<not> isRunning state \<or> isPaused state then (Stopped, stopAgentLoop h)
      else if currentIteration state \<ge> maxIterations state then
        (BudgetHalt, stopAgentLoop (h\<lparr> store := pauseAgent (addLog (st 0)
           \<lparr> in_type = Milestone,
             in_message = icon_target @ '' Reached maximum iterations ('' @
                          decimal (maxIterations state) @ ''). Agent stopped.'',
             in_icon = icon_target \<rparr> state) \<rparr>))
      else if tasks state = [] \<and> objective state \<noteq> [] then
        (let initialTasks = generateInitialTasks sv (objective state) in
         (Seeded, h\<lparr> store := addLog (st 0)
            \<lparr> in_type = Info,
              in_message = icon_memo @ '' Generated '' @ decimal (length initialTasks) @
                           '' initial tasks'',
              in_icon = icon_memo \<rparr> (fold addTask initialTasks state) \<rparr>))
      else
        (case selectNext sv state of
           None \<Rightarrow>
             if list_all (\<lambda>t. status t = Completed \<or> status t = Failed) (tasks state)
                \<and> length (filter (\<lambda>t. status t = Completed) (tasks state)) > 0
             then (AllCompleted, stopAgentLoop (h\<lparr> store := pauseAgent (addLog (st 0)
                     \<lparr> in_type = Milestone,
                       in_message = icon_check @ '' All tasks completed! Objective achieved.'',
                       in_icon = icon_check \<rparr> state) \<rparr>))
             else (NoOp, h)
         | Some next \<Rightarrow>
             (let ai = (mode state = AI \<and> apiKey (settings state) \<noteq> []);
                  s1 = incrementIteration state;
                  s2 = updateTask (t_id next) (\<lambda>t. t\<lparr> status := Running \<rparr>) s1;
                  s3 = addLog (st 0)
                         \<lparr> in_type = TaskLog,
                           in_message = icon_play @ '' Starting: '' @ description next,
                           in_icon = icon_play \<rparr> s2;
                  s4 = addLog (st 1)
                         (if ai
                          then \<lparr> in_type = Thinking,
                                 in_message = icon_thought @ '' AI is thinking...'',
                                 in_icon = icon_thought \<rparr>
                          else \<lparr> in_type = Info,
                                 in_message = icon_lens @ '' Processing task...'',
                                 in_icon = icon_lens \<rparr>) s3
              in (Awaiting \<lparr> heldState = state, nextTask = next, viaAI = ai \<rparr>,
                  h\<lparr> store := s4 \<rparr>))))"

text \<open>
  The body of the \<open>try\<close> up to the point where \<open>result\<close> is bound: a response whose
  \<open>error\<close> is a non-empty string is rethrown as an \<open>Error\<close>.
\<close>

definition awaitedResult :: "Awaited \<Rightarrow> Thrown + string" where
  "awaitedResult a =
     (case a of
        AIResponse content err \<Rightarrow>
          (case err of
             None \<Rightarrow> Inr content
           | Some e \<Rightarrow> if e \<noteq> [] then Inl (ErrorObject e) else Inr content)
      | SimulatedText text \<Rightarrow> Inr text
      | Rejects e \<Rightarrow> Inl e)"

text \<open>
  \<open>Math.floor((completedCount / totalCount) * 100)\<close>, in exact arithmetic where the
  source computes with doubles. For an empty list the source computes \<open>NaN\<close>, which is
  no milestone value either; here the quotient is \<open>0\<close>.
\<close>

definition progressOf :: "Task list \<Rightarrow> nat" where
  "progressOf ts = (100 * length (filter (\<lambda>t. status t = Completed) ts)) div length ts"

text \<open>
  The continuation after the \<open>await\<close>. Its writes go to the live store; \<open>state.tasks\<close>
  and \<open>state.objective\<close> are read from the state object held since the start of the
  tick.
\<close>

definition resumeAgentIteration ::
    "Services \<Rightarrow> (nat \<Rightarrow> Stamp) \<Rightarrow> nat \<Rightarrow> Suspended \<Rightarrow> Awaited \<Rightarrow> Hook \<Rightarrow> Hook" where
  "resumeAgentIteration sv st now c a h =
     (let state = heldState c; next = nextTask c in
      case awaitedResult a of
        Inr res \<Rightarrow>
          (let s1 = completeTask now (t_id next) res (store h);
               s2 = addLog (st 0)
                      \<lparr> in_type = Success,
                        in_message = icon_check @ '' Completed: '' @ description next,
                        in_icon = icon_check \<rparr> s1;
               s3 = addLog (st 1)
                      \<lparr> in_type = Result,
                        in_message = icon_chart @ '' Result: '' @ res,
                        in_icon = icon_chart \<rparr> s2;
               followUpTasks = generateFollowUpTasks sv next res (objective state);
               s4 = (if length followUpTasks > 0
                     then addLog (st 2)
                            \<lparr> in_type = Info,
                              in_message = icon_memo @ '' Generated '' @
                                           decimal (length followUpTasks) @ '' follow-up task(s)'',
                              in_icon = icon_memo \<rparr> (fold addTask followUpTasks s3)
                     else s3);
               progress = progressOf (tasks state);
               s5 = (if progress \<in> set [25, 50, 75]
                     then addLog (st 3)
                            \<lparr> in_type = Milestone,
                              in_message = icon_target @ '' Milestone: '' @ decimal progress @
                                           ''% complete!'',
                              in_icon = icon_target \<rparr> s4
                     else s4)
           in h\<lparr> store := s5 \<rparr>)
      | Inl e \<Rightarrow>
          h\<lparr> store := addLog (st 0)
                 \<lparr> in_type = Error,
                   in_message = icon_cross @ '' Failed: '' @ errorMessage e,
                   in_icon = icon_cross \<rparr>
                 (updateTask (t_id next) (\<lambda>t. t\<lparr> status := Failed \<rparr>) (store h)) \<rparr>)"

text \<open>
  \<open>startAgentLoop\<close> returns at once when the interval handle is set; otherwise it sets
  the interval and calls \<open>executeAgentIteration\<close> immediately, without awaiting it. The
  effect of the hook runs after a render in which \<open>isRunning\<close> or \<open>isPaused\<close> changed:
  first the cleanup of its previous run (\<open>stopAgentLoop\<close>), then its body.
\<close>

definition startAgentLoop :: "Services \<Rightarrow> (nat \<Rightarrow> Stamp) \<Rightarrow> Hook \<Rightarrow> Tick option \<times> Hook" where
  "startAgentLoop sv st h =
     (if agentLoopRef h then (None, h)
      else (case executeAgentIteration sv st (h\<lparr> agentLoopRef := True \<rparr>) of
              (t, h') \<Rightarrow> (Some t, h')))"

definition useEffect :: "Services \<Rightarrow> (nat \<Rightarrow> Stamp) \<Rightarrow> Hook \<Rightarrow> Tick option \<times> Hook" where
  "useEffect sv st h =
     (let h0 = stopAgentLoop h in
      if isRunning (store h0) \<and> \<not> isPaused (store h0)
      then startAgentLoop sv st h0
      else (None, stopAgentLoop h0))"

text \<open>
  A run of the loop. The interval callback calls \<open>executeAgentIteration\<close> whenever the
  timer fires; the timer does not wait for the promise the callback returns. A suspended
  call is continued when its awaited promise settles; the operator can pause and reset in
  between, and the effect can run. Each event is one uninterrupted synchronous segment of
  the single JavaScript thread.
\<close>

record System =
  hook :: Hook
  inflight :: "Suspended list"

datatype Event =
    TimerFires "nat \<Rightarrow> Stamp"
  | EffectRuns "nat \<Rightarrow> Stamp"
  | CallSettles nat Awaited "nat \<Rightarrow> Stamp" nat
  | OperatorPause
  | OperatorReset nat

fun launch :: "System \<Rightarrow> Tick option \<times> Hook \<Rightarrow> System" where
  "launch sys (Some (Awaiting c), h) = \<lparr> hook = h, inflight = inflight sys @ [c] \<rparr>"
| "launch sys (t, h) = sys\<lparr> hook := h \<rparr>"

fun step :: "Services \<Rightarrow> System \<Rightarrow> Event \<Rightarrow> System" where
  "step sv sys (TimerFires st) =
     (if agentLoopRef (hook sys)
      then (case executeAgentIteration sv st (hook sys) of (t, h) \<Rightarrow> launch sys (Some t, h))
      else sys)"
| "step sv sys (EffectRuns st) = launch sys (useEffect sv st (hook sys))"
| "step sv sys (CallSettles i a st now) =
     (if i < length (inflight sys)
      then \<lparr> hook = resumeAgentIteration sv st now (inflight sys ! i) a (hook sys),
             inflight = take i (inflight sys) @ drop (Suc i) (inflight sys) \<rparr>
      else sys)"
| "step sv sys OperatorPause = sys\<lparr> hook := (hook sys)\<lparr> store := pauseAgent (store (hook sys)) \<rparr> \<rparr>"
| "step sv sys (OperatorReset now) =
     sys\<lparr> hook := (hook sys)\<lparr> store := resetAgent now (store (hook sys)) \<rparr> \<rparr>"

definition run :: "Services \<Rightarrow> System \<Rightarrow> Event list \<Rightarrow> System" where
  "run sv sys evs = foldl (step sv) sys evs"

definition runningCount :: "AgentState \<Rightarrow> nat" where
  "runningCount s = length (filter (\<lambda>t. status t = Running) (tasks s))"

section \<open>The hook reading the store through its render closure (part_001 lines 198--422)\<close>

text \<open>
  This variant of \<open>useAgent\<close> reads \<open>store.tasks\<close>, \<open>store.currentIteration\<close> and the
  other fields from the state object that \<open>useAgentStore()\<close> returned at the render
  which created the callback; that object is an argument here (\<open>snap\<close>). It calls
  \<open>store.setIsRunning\<close>, \<open>store.setIsPaused\<close>, \<open>store.setCurrentIteration\<close>,
  \<open>store.clearTasks\<close> and \<open>store.clearLogs\<close>, which the store of lines 423--554 does
  not have: the property is undefined and the call throws a \<open>TypeError\<close>. In
  \<open>executeAgentIteration\<close> the first such call on either path (line 219, line 244) is
  outside the \<open>try\<close> block, so the promise of the async function rejects there: what
  the tick did before the call stays done, and nothing after it is run. \<open>resetAgent\<close>
  throws at line 402, after \<open>stopAgentLoop\<close>.
\<close>

datatype Uncaught = TypeError string

definition executeAgentIteration_closure :: "AgentState \<Rightarrow> Hook \<Rightarrow> Uncaught \<times> Hook" where
  "executeAgentIteration_closure snap h =
     (let pendingTasks = filter (\<lambda>t. status t = Pending) (tasks snap) in
      if length pendingTasks = 0 \<or> currentIteration snap \<ge> maxIterations snap then
        (TypeError ''store.setIsRunning is not a function'', h)
      else
        (let next = hd pendingTasks;
             s1 = updateTask (t_id next) (\<lambda>t. t\<lparr> status := Running \<rparr>) (store h)
         in (TypeError ''store.setCurrentIteration is not a function'', h\<lparr> store := s1 \<rparr>)))"

definition resetAgent_closure :: "Hook \<Rightarrow> Uncaught \<times> Hook" where
  "resetAgent_closure h = (TypeError ''store.setIsRunning is not a function'', stopAgentLoop h)"

section \<open>Sample inputs\<close>

text \<open>Modelled from the spec: \<open>prioritizeTasks\<close> of \<open>services/taskGenerator\<close> is not
  among the sources; section 4.1 makes it a stable sort by \<open>priority\<close> descending.\<close>

definition prioritizeTasks_spec :: "Task list \<Rightarrow> Task list" where
  "prioritizeTasks_spec ts = sort_key (\<lambda>t. - priority t) ts"

definition sampleTask :: "string \<Rightarrow> TaskStatus \<Rightarrow> string list option \<Rightarrow> Task" where
  "sampleTask ident st deps =
     \<lparr> t_id = ident, description = ''work on '' @ ident, status = st, priority = 0,
       createdAt = 0, completedAt = None, result = None, dependencies = deps \<rparr>"

text \<open>Modelled from the spec: the generators of \<open>services/taskGenerator\<close> are not among
  the sources; this instance seeds one pending task without dependencies and derives no
  follow-up task, both allowed by section 4.1.\<close>

definition sampleServices :: Services where
  "sampleServices =
     \<lparr> generateInitialTasks = (\<lambda>obj. [sampleTask ''task-1'' Pending None]),
       generateFollowUpTasks = (\<lambda>task res obj. []),
       prioritizeTasks = prioritizeTasks_spec \<rparr>"

definition sampleStamps :: "nat \<Rightarrow> Stamp" where
  "sampleStamps k = \<lparr> idClock = 7, idRandom = ''0.5'', tsClock = 7 \<rparr>"

definition sampleState :: "Task list \<Rightarrow> AgentState" where
  "sampleState ts = (startAgent (initialState 5))\<lparr> objective := ''Write a blog post'', tasks := ts \<rparr>"

definition sampleHook :: "Task list \<Rightarrow> Hook" where
  "sampleHook ts = \<lparr> store = sampleState ts, agentLoopRef = True \<rparr>"

definition sampleSystem :: "Task list \<Rightarrow> System" where
  "sampleSystem ts = \<lparr> hook = sampleHook ts, inflight = [] \<rparr>"

text \<open>The same session in delegated mode: mode \<open>ai\<close> with an API key in the settings.\<close>

definition sampleDelegatedState :: "Task list \<Rightarrow> AgentState" where
  "sampleDelegatedState ts =
     (sampleState ts)\<lparr> mode := AI, settings := defaultSettings\<lparr> apiKey := ''sk-or-sample'' \<rparr> \<rparr>"

definition sampleDelegatedSystem :: "Task list \<Rightarrow> System" where
  "sampleDelegatedSystem ts =
     \<lparr> hook = \<lparr> store = sampleDelegatedState ts, agentLoopRef = True \<rparr>, inflight = [] \<rparr>"

section \<open>Predicates the claims are stated with\<close>

text \<open>
  The words of the specification, "all of whose listed dependencies are completed":
  every listed id names a task of the sequence that is completed.
\<close>

definition dependenciesAllCompleted :: "Task \<Rightarrow> Task list \<Rightarrow> bool" where
  "dependenciesAllCompleted task allTasks =
     (case dependencies task of
        None \<Rightarrow> True
      | Some deps \<Rightarrow>
          list_all (\<lambda>d. list_ex (\<lambda>u. t_id u = d \<and> status u = Completed) allTasks) deps)"

text \<open>Runs in which the operator never resets.\<close>

fun isReset :: "Event \<Rightarrow> bool" where
  "isReset (OperatorReset now) = True"
| "isReset e = False"

definition runningIds :: "AgentState \<Rightarrow> string list" where
  "runningIds s = map t_id (filter (\<lambda>t. status t = Running) (tasks s))"

text \<open>
  The ids of the tasks of the calls in flight, and the invariant of the loop: every
  running task carries the id of the task of a call in flight.
\<close>

definition inflightIds :: "System \<Rightarrow> string list" where
  "inflightIds sys = map (\<lambda>c. t_id (nextTask c)) (inflight sys)"

definition runningInFlight :: "System \<Rightarrow> bool" where
  "runningInFlight sys \<longleftrightarrow>
     list_all (\<lambda>u. status u = Running \<longrightarrow> t_id u \<in> set (inflightIds sys))
       (tasks (store (hook sys)))"


section \<open>Auxiliary facts\<close>

lemma fold_addTask: "fold addTask xs s = s\<lparr> tasks := tasks s @ xs \<rparr>"
  by (induction xs arbitrary: s) (simp_all add: addTask_def)

lemmas store_defs = addLog_def pauseAgent_def updateTask_def completeTask_def
  incrementIteration_def fold_addTask stopAgentLoop_def resetAgent_def

lemmas sample_defs = sampleSystem_def sampleHook_def sampleState_def startAgent_def
  initialState_def sampleServices_def prioritizeTasks_spec_def sampleTask_def
  sampleDelegatedSystem_def sampleDelegatedState_def defaultSettings_def

lemmas loop_defs = run_def executeAgentIteration_def resumeAgentIteration_def Let_def
  selectNext_def hasPendingDependencies_def awaitedResult_def progressOf_def

lemmas closure_defs = executeAgentIteration_closure_def resetAgent_closure_def

lemma digit_value: "d < 10 \<Longrightarrow> of_char (digit d) - 48 = d"
  by (simp add: digit_def)

lemma decimalValue_decimal: "decimalValue (decimal n) = n"
proof (induction n rule: decimal.induct)
  case (1 n)
  show ?case
  proof (cases "n < 10")
    case True
    then show ?thesis by (subst decimal.simps) (simp add: decimalValue_def digit_value)
  next
    case False
    with 1 have "decimalValue (decimal (n div 10)) = n div 10" by simp
    then show ?thesis using False
      by (subst decimal.simps) (simp add: decimalValue_def digit_value)
  qed
qed

lemma decimal_inject: "decimal m = decimal n \<longleftrightarrow> m = n"
  using decimalValue_decimal by metis

lemma hook_launch: "hook (launch sys (t, h)) = h"
  by (cases "(sys, (t, h))" rule: launch.cases) simp_all

lemma inflight_launch:
  "inflight (launch sys (t, h))
     = (case t of Some (Awaiting c) \<Rightarrow> inflight sys @ [c] | _ \<Rightarrow> inflight sys)"
  by (cases "(sys, (t, h))" rule: launch.cases) simp_all

lemma run_Cons: "run sv sys (e # es) = run sv (step sv sys e) es"
  by (simp add: run_def)

lemma run_snoc: "run sv sys (evs @ [e]) = step sv (run sv sys evs) e"
  by (simp add: run_def)

lemma find_id_None: "(find (\<lambda>t. t_id t = d) ts = None) = (\<forall>t\<in>set ts. t_id t \<noteq> d)"
  by (auto simp: find_None_iff)

lemma find_Some_mem: "find P xs = Some x \<Longrightarrow> x \<in> set xs \<and> P x"
  by (induction xs) (auto split: if_splits)

lemma find_distinct_id:
  "distinct (map t_id ts) \<Longrightarrow> u \<in> set ts \<Longrightarrow> find (\<lambda>x. t_id x = t_id u) ts = Some u"
  by (induction ts) (auto simp: image_iff)

lemma hasPendingDependencies_iff:
  "hasPendingDependencies task allTasks \<longleftrightarrow>
     (\<exists>deps d u. dependencies task = Some deps \<and> d \<in> set deps \<and>
        find (\<lambda>t. t_id t = d) allTasks = Some u \<and> status u \<noteq> Completed)"
  by (auto simp: hasPendingDependencies_def list_ex_iff split: option.splits)

lemma selectNext_Some:
  "selectNext sv state = Some t \<Longrightarrow>
     t \<in> set (prioritizeTasks sv (tasks state)) \<and> status t = Pending \<and>
     \<not> hasPendingDependencies t (tasks state)"
  unfolding selectNext_def by (drule find_Some_mem) simp

lemma executeAgentIteration_Awaiting:
  "fst (executeAgentIteration sv st h) = Awaiting c \<Longrightarrow>
     selectNext sv (store h) = Some (nextTask c) \<and> heldState c = store h \<and>
     isRunning (store h) \<and> \<not> isPaused (store h) \<and>
     currentIteration (store h) < maxIterations (store h)"
  by (auto simp: executeAgentIteration_def Let_def split: if_splits option.splits)

section \<open>Selection and dependencies\<close>

text \<open>
  Claim C2, as stated, fails: the selecting phase of the getState hook chooses a pending
  task whose only listed dependency names no task of the sequence, so not all of its
  listed dependencies are completed.
\<close>

theorem selects_task_with_unknown_dependency:
  "selectNext sampleServices (sampleState [sampleTask ''t1'' Pending (Some [''ghost''])])
     = Some (sampleTask ''t1'' Pending (Some [''ghost''])) \<and>
   \<not> dependenciesAllCompleted (sampleTask ''t1'' Pending (Some [''ghost'']))
        [sampleTask ''t1'' Pending (Some [''ghost''])]"
  by (simp add: selectNext_def sampleServices_def prioritizeTasks_spec_def sampleState_def
      sampleTask_def hasPendingDependencies_def dependenciesAllCompleted_def)

text \<open>
  Claim C2, amended: whenever a tick of the getState hook starts a task, that task is the
  one the selecting phase found, it is pending, and every listed dependency id that
  resolves to a task of the sequence resolves to a completed one; with distinct task ids,
  no task of the sequence that a listed id names is pending, running or failed.
\<close>

theorem selected_task_dependencies_completed:
  assumes "fst (executeAgentIteration sv st h) = Awaiting c"
  shows "selectNext sv (store h) = Some (nextTask c) \<and> status (nextTask c) = Pending \<and>
         (\<forall>deps d u. dependencies (nextTask c) = Some deps \<longrightarrow> d \<in> set deps \<longrightarrow>
            find (\<lambda>x. t_id x = d) (tasks (store h)) = Some u \<longrightarrow> status u = Completed) \<and>
         (distinct (map t_id (tasks (store h))) \<longrightarrow>
            (\<forall>deps d u. dependencies (nextTask c) = Some deps \<longrightarrow> d \<in> set deps \<longrightarrow>
               u \<in> set (tasks (store h)) \<longrightarrow> t_id u = d \<longrightarrow> status u = Completed))"
proof -
  from assms have sel: "selectNext sv (store h) = Some (nextTask c)"
    by (simp add: executeAgentIteration_Awaiting)
  then have p: "status (nextTask c) = Pending"
    and n: "\<not> hasPendingDependencies (nextTask c) (tasks (store h))"
    by (simp_all add: selectNext_Some)
  have a: "\<forall>deps d u. dependencies (nextTask c) = Some deps \<longrightarrow> d \<in> set deps \<longrightarrow>
            find (\<lambda>x. t_id x = d) (tasks (store h)) = Some u \<longrightarrow> status u = Completed"
    using n unfolding hasPendingDependencies_iff by blast
  have b: "distinct (map t_id (tasks (store h))) \<longrightarrow>
            (\<forall>deps d u. dependencies (nextTask c) = Some deps \<longrightarrow> d \<in> set deps \<longrightarrow>
               u \<in> set (tasks (store h)) \<longrightarrow> t_id u = d \<longrightarrow> status u = Completed)"
    using a find_distinct_id by blast
  from sel p a b show ?thesis by blast
qed

theorem selected_task_dependencies_completed_witness:
  "fst (executeAgentIteration sampleServices sampleStamps
          (sampleHook [sampleTask ''t2'' Completed None, sampleTask ''t1'' Pending (Some [''t2''])]))
     = Awaiting \<lparr> heldState = sampleState [sampleTask ''t2'' Completed None,
                                            sampleTask ''t1'' Pending (Some [''t2''])],
                  nextTask = sampleTask ''t1'' Pending (Some [''t2'']), viaAI = False \<rparr>
   \<and> selectNext sampleServices
        (sampleState [sampleTask ''t2'' Completed None, sampleTask ''t1'' Pending (Some [''t2''])])
       = Some (sampleTask ''t1'' Pending (Some [''t2'']))
   \<and> distinct (map t_id [sampleTask ''t2'' Completed None, sampleTask ''t1'' Pending (Some [''t2''])])
   \<and> status (sampleTask ''t2'' Completed None) = Completed"
proof -
  let ?ts = "[sampleTask ''t2'' Completed None, sampleTask ''t1'' Pending (Some [''t2''])]"
  have sel: "selectNext sampleServices (sampleState ?ts)
               = Some (sampleTask ''t1'' Pending (Some [''t2'']))"
    by (simp add: selectNext_def sampleServices_def prioritizeTasks_spec_def sampleState_def
        sampleTask_def hasPendingDependencies_def)
  have h: "fst (executeAgentIteration sampleServices sampleStamps (sampleHook ?ts))
     = Awaiting \<lparr> heldState = sampleState ?ts,
                  nextTask = sampleTask ''t1'' Pending (Some [''t2'']), viaAI = False \<rparr>"
    unfolding executeAgentIteration_def Let_def sampleHook_def
    by (simp add: sel)
       (simp add: sampleState_def startAgent_def initialState_def defaultSettings_def)
  from selected_task_dependencies_completed [OF h] h show ?thesis
    by (simp add: sampleHook_def sampleTask_def)
qed

text \<open>
  The closure hook has no dependency gate at all: it marks the first pending task of the
  sequence running, here one whose dependency is still pending (and then throws at the
  call of \<open>setCurrentIteration\<close>, which the store does not have).
\<close>

lemma closure_hook_ignores_dependencies:
  "map status (tasks (store (snd (executeAgentIteration_closure
      (sampleState [sampleTask ''t1'' Pending (Some [''t2'']), sampleTask ''t2'' Pending None])
      (sampleHook [sampleTask ''t1'' Pending (Some [''t2'']), sampleTask ''t2'' Pending None])))))
   = [Running, Pending]"
  by (simp add: closure_defs Let_def store_defs sample_defs)

text \<open>
  Claim C10: a listed dependency id that matches no task of the sequence does not block.
  The verdict of \<open>hasPendingDependencies\<close> is the verdict for the list without that id;
  when each remaining id resolves to a completed task the task is not blocked, and a
  pending such task among the prioritized tasks lets the selecting phase find a task.
\<close>

theorem missing_dependency_is_satisfied:
  assumes "dependencies task = Some deps" and "\<forall>t\<in>set (tasks state). t_id t \<noteq> d"
  shows "hasPendingDependencies task (tasks state) =
           hasPendingDependencies (task\<lparr> dependencies := Some (removeAll d deps) \<rparr>) (tasks state)
       \<and> ((\<forall>e\<in>set deps. e \<noteq> d \<longrightarrow>
              (\<exists>u. find (\<lambda>t. t_id t = e) (tasks state) = Some u \<and> status u = Completed))
            \<longrightarrow> \<not> hasPendingDependencies task (tasks state)
              \<and> (status task = Pending \<longrightarrow> task \<in> set (prioritizeTasks sv (tasks state))
                   \<longrightarrow> (\<exists>t. selectNext sv state = Some t)))"
proof -
  let ?blocks = "\<lambda>depId. case find (\<lambda>t. t_id t = depId) (tasks state) of None \<Rightarrow> False
                         | Some depTask \<Rightarrow> status depTask \<noteq> Completed"
  have n: "find (\<lambda>t. t_id t = d) (tasks state) = None"
    using assms(2) by (simp add: find_id_None)
  have "list_ex ?blocks deps = list_ex ?blocks (removeAll d deps)"
    using n by (induction deps) auto
  then have first: "hasPendingDependencies task (tasks state) =
      hasPendingDependencies (task\<lparr> dependencies := Some (removeAll d deps) \<rparr>) (tasks state)"
    using assms(1) by (cases "removeAll d deps = []") (simp_all add: hasPendingDependencies_def)
  have second: "\<not> hasPendingDependencies task (tasks state)
              \<and> (status task = Pending \<longrightarrow> task \<in> set (prioritizeTasks sv (tasks state))
                   \<longrightarrow> (\<exists>t. selectNext sv state = Some t))"
    if rest: "\<forall>e\<in>set deps. e \<noteq> d \<longrightarrow>
              (\<exists>u. find (\<lambda>t. t_id t = e) (tasks state) = Some u \<and> status u = Completed)"
  proof -
    have free: "\<not> hasPendingDependencies task (tasks state)"
      unfolding hasPendingDependencies_iff using assms(1) n rest by force
    have "selectNext sv state \<noteq> None"
      if "status task = Pending" and "task \<in> set (prioritizeTasks sv (tasks state))"
      using that free by (auto simp: selectNext_def find_None_iff)
    then show ?thesis using free by blast
  qed
  from first second show ?thesis by blast
qed

theorem missing_dependency_is_satisfied_witness:
  "dependencies (sampleTask ''t1'' Pending (Some [''ghost'', ''t2''])) = Some [''ghost'', ''t2'']
   \<and> list_all (\<lambda>t. t_id t \<noteq> ''ghost'')
         (tasks (sampleState [sampleTask ''t2'' Completed None,
                              sampleTask ''t1'' Pending (Some [''ghost'', ''t2''])]))
   \<and> \<not> hasPendingDependencies (sampleTask ''t1'' Pending (Some [''ghost'', ''t2'']))
         (tasks (sampleState [sampleTask ''t2'' Completed None,
                              sampleTask ''t1'' Pending (Some [''ghost'', ''t2''])]))"
proof -
  let ?t1 = "sampleTask ''t1'' Pending (Some [''ghost'', ''t2''])"
  let ?s = "sampleState [sampleTask ''t2'' Completed None, ?t1]"
  have a: "dependencies ?t1 = Some [''ghost'', ''t2'']" by (simp add: sampleTask_def)
  have b: "\<forall>t\<in>set (tasks ?s). t_id t \<noteq> ''ghost''"
    by (simp add: sampleState_def sampleTask_def)
  have c: "\<forall>e\<in>set [''ghost'', ''t2'']. e \<noteq> ''ghost'' \<longrightarrow>
             (\<exists>u. find (\<lambda>t. t_id t = e) (tasks ?s) = Some u \<and> status u = Completed)"
    by (simp add: sampleState_def sampleTask_def)
  have b': "list_all (\<lambda>t. t_id t \<noteq> ''ghost'') (tasks ?s)"
    using b by (simp only: list_all_iff)
  from missing_dependency_is_satisfied [OF a b, of sampleServices] c have
    "\<not> hasPendingDependencies ?t1 (tasks ?s)" by blast
  with a b' show ?thesis by blast
qed

section \<open>Operator commands of the store\<close>

text \<open>
  Claim C8, as stated, fails: while the agent is running, \<open>setObjective\<close> replaces the
  stored objective.
\<close>

theorem setObjective_while_running_changes_objective:
  "isRunning (sampleState []) \<and>
   objective (setObjective ''Another goal'' (sampleState [])) \<noteq> objective (sampleState [])"
  by (simp add: setObjective_def sampleState_def startAgent_def initialState_def)

text \<open>
  Claim C8, amended: \<open>setObjective\<close> stores the given text as the objective in every
  state, whatever \<open>isRunning\<close> and \<open>isPaused\<close> are, and changes no other field.
\<close>

theorem setObjective_always_effective:
  "objective (setObjective text s) = text \<and>
   setObjective text s = s\<lparr> objective := text \<rparr> \<and>
   isRunning (setObjective text s) = isRunning s \<and>
   isPaused (setObjective text s) = isPaused s \<and>
   tasks (setObjective text s) = tasks s \<and>
   executionLog (setObjective text s) = executionLog s \<and>
   currentIteration (setObjective text s) = currentIteration s \<and>
   sessionId (setObjective text s) = sessionId s"
  by (simp add: setObjective_def)

text \<open>
  Claim C9, as stated, fails: the new session id is the decimal string of the clock
  reading, so a reset at the clock reading that produced the current session id assigns
  the same id again.
\<close>

theorem reset_may_repeat_sessionId:
  "sessionId (resetAgent 1700000000000 (initialState 1700000000000))
     = sessionId (initialState 1700000000000)"
  by (simp add: resetAgent_def initialState_def)

text \<open>
  Claim C9, amended: after the store's \<open>resetAgent\<close>, in any state, tasks and
  executionLog are empty, currentIteration is 0, isRunning and isPaused are false, the
  settings and theme (and maxIterations, mode) are unchanged, and the session id is the
  decimal string of the clock reading at the reset. It differs from the previous id
  exactly when the previous id is not that string; when the previous id was produced at
  the clock reading \<open>t0\<close>, exactly when the reset happens at another reading.
\<close>

theorem resetAgent_postcondition:
  "tasks (resetAgent now s) = [] \<and> executionLog (resetAgent now s) = [] \<and>
   currentIteration (resetAgent now s) = 0 \<and>
   \<not> isRunning (resetAgent now s) \<and> \<not> isPaused (resetAgent now s) \<and>
   settings (resetAgent now s) = settings s \<and> theme (resetAgent now s) = theme s \<and>
   maxIterations (resetAgent now s) = maxIterations s \<and> mode (resetAgent now s) = mode s \<and>
   sessionId (resetAgent now s) = decimal now \<and>
   (sessionId (resetAgent now s) \<noteq> sessionId s \<longleftrightarrow> sessionId s \<noteq> decimal now) \<and>
   (\<forall>t0. sessionId s = decimal t0 \<longrightarrow>
      (sessionId (resetAgent now s) \<noteq> sessionId s \<longleftrightarrow> now \<noteq> t0))"
  by (auto simp: resetAgent_def decimal_inject)

theorem resetAgent_postcondition_witness:
  "sessionId (initialState 1700000000000) = decimal 1700000000000 \<and>
   sessionId (resetAgent 1700000000001 (initialState 1700000000000))
     \<noteq> sessionId (initialState 1700000000000) \<and>
   tasks (resetAgent 1700000000001 (initialState 1700000000000)) = []"
proof -
  have a: "sessionId (initialState 1700000000000) = decimal 1700000000000"
    by (simp add: initialState_def)
  have b: "(1700000000001 :: nat) \<noteq> 1700000000000" by simp
  from resetAgent_postcondition [of 1700000000001 "initialState 1700000000000"] a b
  have "sessionId (resetAgent 1700000000001 (initialState 1700000000000))
          \<noteq> sessionId (initialState 1700000000000)"
    and "tasks (resetAgent 1700000000001 (initialState 1700000000000)) = []"
    by blast+
  with a show ?thesis by blast
qed

text \<open>
  The reset of the closure hook clears the timer and then throws at the call of
  \<open>setIsRunning\<close>, which the store does not have: the store is left as it was.
\<close>

lemma closure_reset_changes_nothing:
  "store (snd (resetAgent_closure h)) = store h \<and> \<not> agentLoopRef (snd (resetAgent_closure h))"
  by (simp add: closure_defs stopAgentLoop_def)

section \<open>One task at a time\<close>

text \<open>
  Claim C1, as stated, fails: nothing keeps a tick from beginning while the call of the
  previous tick is in flight. When the timer fires twice before the first call settles,
  two tasks are running.
\<close>

theorem overlapping_ticks_two_running:
  "runningCount (store (hook (run sampleServices
      \<lparr> hook = sampleHook [sampleTask ''t1'' Pending None, sampleTask ''t2'' Pending None],
        inflight = [] \<rparr>
      [TimerFires sampleStamps, TimerFires sampleStamps]))) = 2"
  by (simp add: run_def executeAgentIteration_def Let_def store_defs selectNext_def
      sampleHook_def sampleState_def startAgent_def initialState_def sampleServices_def
      prioritizeTasks_spec_def sampleTask_def hasPendingDependencies_def runningCount_def)

lemma exec_running:
  assumes "list_all (\<lambda>u. status u = Running \<longrightarrow> t_id u \<in> I) (tasks (store h))"
    and "\<forall>obj. list_all (\<lambda>t. status t \<noteq> Running) (generateInitialTasks sv obj)"
  shows "case executeAgentIteration sv st h of
           (Awaiting c, h') \<Rightarrow>
             list_all (\<lambda>u. status u = Running \<longrightarrow> t_id u \<in> insert (t_id (nextTask c)) I)
               (tasks (store h'))
         | (_, h') \<Rightarrow> list_all (\<lambda>u. status u = Running \<longrightarrow> t_id u \<in> I) (tasks (store h'))"
  using assms
  by (auto simp: executeAgentIteration_def Let_def store_defs list_all_iff split: option.splits)

lemma resume_running:
  assumes "list_all (\<lambda>u. status u = Running \<longrightarrow> t_id u \<in> insert (t_id (nextTask c)) I)
             (tasks (store h))"
    and "\<forall>t r obj. list_all (\<lambda>t. status t \<noteq> Running) (generateFollowUpTasks sv t r obj)"
  shows "list_all (\<lambda>u. status u = Running \<longrightarrow> t_id u \<in> I)
           (tasks (store (resumeAgentIteration sv st now c a h)))"
  using assms
  by (auto simp: resumeAgentIteration_def Let_def store_defs list_all_iff split: sum.splits)

lemma launch_runningInFlight:
  assumes "case r of
           (Awaiting c, h') \<Rightarrow>
             list_all (\<lambda>u. status u = Running \<longrightarrow>
                 t_id u \<in> insert (t_id (nextTask c)) (set (inflightIds sys))) (tasks (store h'))
         | (_, h') \<Rightarrow>
             list_all (\<lambda>u. status u = Running \<longrightarrow> t_id u \<in> set (inflightIds sys))
               (tasks (store h'))"
  shows "runningInFlight (launch sys (Some (fst r), snd r))"
  using assms
  by (cases r; cases "fst r") (auto simp: runningInFlight_def inflightIds_def list_all_iff)

lemma inflightIds_without:
  assumes "i < length (inflight sys)"
  shows "set (inflightIds sys)
           \<subseteq> insert (t_id (nextTask (inflight sys ! i)))
               (set (map (\<lambda>c. t_id (nextTask c))
                      (take i (inflight sys) @ drop (Suc i) (inflight sys))))"
proof -
  have "inflight sys = take i (inflight sys) @ inflight sys ! i # drop (Suc i) (inflight sys)"
    using assms by (rule id_take_nth_drop)
  then have "inflightIds sys
      = map (\<lambda>c. t_id (nextTask c))
          (take i (inflight sys) @ inflight sys ! i # drop (Suc i) (inflight sys))"
    by (simp add: inflightIds_def)
  then show ?thesis by auto
qed

lemma step_runningInFlight:
  assumes inv: "runningInFlight sys"
    and gi: "\<forall>obj. list_all (\<lambda>t. status t \<noteq> Running) (generateInitialTasks sv obj)"
    and gf: "\<forall>t r obj. list_all (\<lambda>t. status t \<noteq> Running) (generateFollowUpTasks sv t r obj)"
  shows "runningInFlight (step sv sys e)"
proof (cases e)
  case (TimerFires st)
  from inv have held: "list_all (\<lambda>u. status u = Running \<longrightarrow> t_id u \<in> set (inflightIds sys))
                         (tasks (store (hook sys)))"
    by (simp add: runningInFlight_def)
  show ?thesis
  proof (cases "agentLoopRef (hook sys)")
    case True
    from launch_runningInFlight [OF exec_running [OF held gi, of st]] show ?thesis
      using True TimerFires by (simp add: case_prod_unfold)
  next
    case False
    then show ?thesis using TimerFires inv by simp
  qed
next
  case (EffectRuns st)
  from inv have held: "list_all (\<lambda>u. status u = Running \<longrightarrow> t_id u \<in> set (inflightIds sys))
                         (tasks (store (hook sys)))"
    by (simp add: runningInFlight_def)
  show ?thesis
  proof (cases "isRunning (store (hook sys)) \<and> \<not> isPaused (store (hook sys))")
    case True
    let ?h = "(hook sys)\<lparr> agentLoopRef := True \<rparr>"
    have "list_all (\<lambda>u. status u = Running \<longrightarrow> t_id u \<in> set (inflightIds sys))
            (tasks (store ?h))"
      using held by simp
    from launch_runningInFlight [OF exec_running [OF this gi, of st]] show ?thesis
      using True EffectRuns
      by (simp add: useEffect_def startAgentLoop_def stopAgentLoop_def Let_def case_prod_unfold)
  next
    case False
    then show ?thesis using EffectRuns inv
      by (auto simp: useEffect_def stopAgentLoop_def Let_def runningInFlight_def inflightIds_def)
  qed
next
  case (CallSettles i a st now)
  show ?thesis
  proof (cases "i < length (inflight sys)")
    case True
    let ?rest = "take i (inflight sys) @ drop (Suc i) (inflight sys)"
    let ?I = "set (map (\<lambda>c. t_id (nextTask c)) ?rest)"
    from inv inflightIds_without [OF True]
    have "list_all (\<lambda>u. status u = Running \<longrightarrow>
              t_id u \<in> insert (t_id (nextTask (inflight sys ! i))) ?I)
            (tasks (store (hook sys)))"
      by (auto simp: runningInFlight_def list_all_iff)
    from resume_running [OF this gf] show ?thesis
      using CallSettles True by (simp add: runningInFlight_def inflightIds_def)
  next
    case False
    then show ?thesis using CallSettles inv by simp
  qed
next
  case OperatorPause
  then show ?thesis using inv
    by (simp add: runningInFlight_def inflightIds_def pauseAgent_def)
next
  case (OperatorReset now)
  then show ?thesis by (simp add: runningInFlight_def resetAgent_def)
qed

lemma run_runningInFlight:
  assumes gi: "\<forall>obj. list_all (\<lambda>t. status t \<noteq> Running) (generateInitialTasks sv obj)"
    and gf: "\<forall>t r obj. list_all (\<lambda>t. status t \<noteq> Running) (generateFollowUpTasks sv t r obj)"
  shows "runningInFlight sys \<Longrightarrow> runningInFlight (run sv sys evs)"
proof (induction evs arbitrary: sys)
  case Nil
  then show ?case by (simp add: run_def)
next
  case (Cons e es)
  from Cons.prems have "runningInFlight (step sv sys e)"
    by (rule step_runningInFlight [OF _ gi gf])
  with Cons show ?case by (simp add: run_Cons)
qed

lemma runningInFlight_ids:
  assumes "runningInFlight sys"
  shows "length (remdups (runningIds (store (hook sys)))) \<le> length (inflight sys)"
proof -
  from assms have "set (runningIds (store (hook sys))) \<subseteq> set (inflightIds sys)"
    by (auto simp: runningInFlight_def runningIds_def list_all_iff)
  then have "card (set (runningIds (store (hook sys)))) \<le> card (set (inflightIds sys))"
    by (intro card_mono) simp_all
  also have "\<dots> \<le> length (inflightIds sys)" by (rule card_length)
  finally show ?thesis by (simp add: length_remdups_card_conv inflightIds_def)
qed

lemma runningInFlight_count:
  assumes "runningInFlight sys" and "distinct (map t_id (tasks (store (hook sys))))"
  shows "runningCount (store (hook sys)) \<le> length (inflight sys)"
proof -
  have "distinct (runningIds (store (hook sys)))"
    unfolding runningIds_def using assms(2) by (rule distinct_map_filter)
  then have "length (remdups (runningIds (store (hook sys))))
               = length (runningIds (store (hook sys)))"
    by (simp only: distinct_remdups_id)
  also have "\<dots> = runningCount (store (hook sys))"
    by (simp add: runningIds_def runningCount_def)
  finally show ?thesis using runningInFlight_ids [OF assms(1)] by simp
qed

text \<open>
  Claim C1, amended: in every run of the getState hook (timer ticks, effect runs,
  settling calls, pauses and resets in any order and number), started in a state in which
  every running task carries the id of the task of a call in flight (so in every state
  with no running task), and with generators that produce no running task, at every
  instant every running task carries the id of the task of a call in flight. The running
  tasks therefore carry at most as many ids as calls are in flight, and with distinct
  task ids the number of running tasks never exceeds the number of calls in flight: at
  most one task is running whenever at most one call is in flight. The hook puts no
  bound on the calls in flight: a tick that selects a task while a call is in flight
  starts it.
\<close>

theorem running_tasks_are_in_flight:
  assumes gi: "\<forall>obj. list_all (\<lambda>t. status t \<noteq> Running) (generateInitialTasks sv obj)"
    and gf: "\<forall>t r obj. list_all (\<lambda>t. status t \<noteq> Running) (generateFollowUpTasks sv t r obj)"
    and start: "runningInFlight sys"
  shows "runningInFlight (run sv sys evs) \<and>
         length (remdups (runningIds (store (hook (run sv sys evs)))))
           \<le> length (inflight (run sv sys evs)) \<and>
         (distinct (map t_id (tasks (store (hook (run sv sys evs)))))
            \<longrightarrow> runningCount (store (hook (run sv sys evs))) \<le> length (inflight (run sv sys evs))) \<and>
         (distinct (map t_id (tasks (store (hook (run sv sys evs)))))
            \<longrightarrow> length (inflight (run sv sys evs)) \<le> 1
            \<longrightarrow> runningCount (store (hook (run sv sys evs))) \<le> 1)"
proof -
  from run_runningInFlight [OF gi gf start]
  have inv: "runningInFlight (run sv sys evs)" .
  from inv runningInFlight_ids [OF inv] runningInFlight_count [OF inv] show ?thesis
    by fastforce
qed

theorem running_tasks_are_in_flight_witness:
  "(\<forall>obj. list_all (\<lambda>t. status t \<noteq> Running) (generateInitialTasks sampleServices obj)) \<and>
   (\<forall>t r obj. list_all (\<lambda>t. status t \<noteq> Running)
      (generateFollowUpTasks sampleServices t r obj)) \<and>
   runningInFlight (sampleSystem [sampleTask ''t1'' Pending None]) \<and>
   distinct (map t_id (tasks (store (hook (run sampleServices
     (sampleSystem [sampleTask ''t1'' Pending None])
     [TimerFires sampleStamps, OperatorPause, EffectRuns sampleStamps, TimerFires sampleStamps]))))) \<and>
   length (inflight (run sampleServices
     (sampleSystem [sampleTask ''t1'' Pending None])
     [TimerFires sampleStamps, OperatorPause, EffectRuns sampleStamps, TimerFires sampleStamps])) = 1 \<and>
   runningCount (store (hook (run sampleServices
     (sampleSystem [sampleTask ''t1'' Pending None])
     [TimerFires sampleStamps, OperatorPause, EffectRuns sampleStamps, TimerFires sampleStamps])))
     \<le> 1"
proof -
  let ?sys = "sampleSystem [sampleTask ''t1'' Pending None]"
  let ?evs = "[TimerFires sampleStamps, OperatorPause, EffectRuns sampleStamps,
               TimerFires sampleStamps]"
  have gi: "\<forall>obj. list_all (\<lambda>t. status t \<noteq> Running) (generateInitialTasks sampleServices obj)"
    by (simp add: sample_defs)
  have gf: "\<forall>t r obj. list_all (\<lambda>t. status t \<noteq> Running)
              (generateFollowUpTasks sampleServices t r obj)"
    by (simp add: sample_defs)
  have start: "runningInFlight ?sys"
    by (simp add: sample_defs runningInFlight_def)
  have d: "distinct (map t_id (tasks (store (hook (run sampleServices ?sys ?evs)))))"
    by (simp add: sample_defs loop_defs store_defs useEffect_def)
  have one: "length (inflight (run sampleServices ?sys ?evs)) = 1"
    by (simp add: sample_defs loop_defs store_defs useEffect_def)
  from running_tasks_are_in_flight [OF gi gf start, of ?evs] d one
  have "runningCount (store (hook (run sampleServices ?sys ?evs))) \<le> 1" by simp
  with gi gf start d one show ?thesis by blast
qed

section \<open>The iteration budget\<close>

lemma exec_iteration:
  "currentIteration (store h) \<le> currentIteration (store (snd (executeAgentIteration sv st h))) \<and>
   maxIterations (store (snd (executeAgentIteration sv st h))) = maxIterations (store h) \<and>
   (currentIteration (store h) \<le> maxIterations (store h) \<longrightarrow>
      currentIteration (store (snd (executeAgentIteration sv st h))) \<le> maxIterations (store h))"
  by (simp add: executeAgentIteration_def Let_def store_defs split: option.splits)

lemma resume_iteration:
  "currentIteration (store (resumeAgentIteration sv st now c a h)) = currentIteration (store h) \<and>
   maxIterations (store (resumeAgentIteration sv st now c a h)) = maxIterations (store h)"
  by (simp add: resumeAgentIteration_def Let_def store_defs split: sum.splits)

lemma step_iteration:
  "(\<not> isReset e \<longrightarrow>
      currentIteration (store (hook sys)) \<le> currentIteration (store (hook (step sv sys e)))) \<and>
   maxIterations (store (hook (step sv sys e))) = maxIterations (store (hook sys)) \<and>
   (currentIteration (store (hook sys)) \<le> maxIterations (store (hook sys)) \<longrightarrow>
      currentIteration (store (hook (step sv sys e))) \<le> maxIterations (store (hook sys)))"
proof (cases e)
  case (TimerFires st)
  show ?thesis
  proof (cases "agentLoopRef (hook sys)")
    case True
    have "hook (step sv sys e) = snd (executeAgentIteration sv st (hook sys))"
      using True TimerFires by (simp add: case_prod_unfold hook_launch)
    then show ?thesis using exec_iteration [of "hook sys" sv st] TimerFires by simp
  next
    case False
    then show ?thesis using TimerFires by simp
  qed
next
  case (EffectRuns st)
  show ?thesis
  proof (cases "isRunning (store (hook sys)) \<and> \<not> isPaused (store (hook sys))")
    case True
    let ?h = "(hook sys)\<lparr> agentLoopRef := True \<rparr>"
    have "hook (step sv sys e) = snd (executeAgentIteration sv st ?h)"
      using True EffectRuns
      by (simp add: useEffect_def startAgentLoop_def stopAgentLoop_def Let_def
          case_prod_unfold hook_launch)
    then show ?thesis using exec_iteration [of ?h sv st] EffectRuns by simp
  next
    case False
    then show ?thesis using EffectRuns
      by (auto simp: useEffect_def stopAgentLoop_def Let_def)
  qed
next
  case (CallSettles i a st now)
  then show ?thesis using resume_iteration by simp
next
  case OperatorPause
  then show ?thesis by (simp add: pauseAgent_def)
next
  case (OperatorReset now)
  then show ?thesis by (simp add: resetAgent_def)
qed

lemma run_iteration:
  "(list_all (\<lambda>e. \<not> isReset e) evs \<longrightarrow>
      currentIteration (store (hook sys)) \<le> currentIteration (store (hook (run sv sys evs)))) \<and>
   maxIterations (store (hook (run sv sys evs))) = maxIterations (store (hook sys)) \<and>
   (currentIteration (store (hook sys)) \<le> maxIterations (store (hook sys)) \<longrightarrow>
      currentIteration (store (hook (run sv sys evs))) \<le> maxIterations (store (hook sys)))"
proof (induction evs rule: rev_induct)
  case Nil
  then show ?case by (simp add: run_def)
next
  case (snoc e evs)
  show ?case
    using snoc step_iteration [of e "run sv sys evs" sv]
    by (auto simp: run_snoc)
qed

lemma budget_halt:
  assumes "isRunning (store h)" and "\<not> isPaused (store h)"
    and "maxIterations (store h) \<le> currentIteration (store h)"
  shows "fst (executeAgentIteration sv st h) = BudgetHalt \<and>
     tasks (store (snd (executeAgentIteration sv st h))) = tasks (store h) \<and>
     currentIteration (store (snd (executeAgentIteration sv st h))) = currentIteration (store h) \<and>
     isPaused (store (snd (executeAgentIteration sv st h))) \<and>
     \<not> agentLoopRef (snd (executeAgentIteration sv st h)) \<and>
     map l_type (executionLog (store (snd (executeAgentIteration sv st h))))
       = map l_type (executionLog (store h)) @ [Milestone]"
  using assms by (simp add: executeAgentIteration_def Let_def store_defs)

text \<open>
  Claim C3: over every run of the getState hook (timer ticks and settling calls in any
  interleaving, pauses; resets excluded where the counter is compared with its earlier
  value) \<open>currentIteration\<close> never decreases, \<open>maxIterations\<close> never changes, and a
  counter that is within the budget stays within it. A tick of a running, unpaused agent
  whose counter has reached the budget is decided before any selection: it appends one
  milestone entry, pauses, clears the timer, and leaves the tasks and the counter as
  they are.
\<close>

theorem iteration_budget_respected:
  "(list_all (\<lambda>e. \<not> isReset e) evs \<longrightarrow>
      currentIteration (store (hook sys)) \<le> currentIteration (store (hook (run sv sys evs)))) \<and>
   maxIterations (store (hook (run sv sys evs))) = maxIterations (store (hook sys)) \<and>
   (currentIteration (store (hook sys)) \<le> maxIterations (store (hook sys)) \<longrightarrow>
      currentIteration (store (hook (run sv sys evs))) \<le> maxIterations (store (hook sys))) \<and>
   (isRunning (store h) \<and> \<not> isPaused (store h) \<and>
    maxIterations (store h) \<le> currentIteration (store h) \<longrightarrow>
      fst (executeAgentIteration sv st h) = BudgetHalt \<and>
      tasks (store (snd (executeAgentIteration sv st h))) = tasks (store h) \<and>
      currentIteration (store (snd (executeAgentIteration sv st h))) = currentIteration (store h) \<and>
      isPaused (store (snd (executeAgentIteration sv st h))) \<and>
      \<not> agentLoopRef (snd (executeAgentIteration sv st h)) \<and>
      map l_type (executionLog (store (snd (executeAgentIteration sv st h))))
        = map l_type (executionLog (store h)) @ [Milestone])"
  using run_iteration [of evs sys sv] budget_halt [of h sv st] by blast

theorem iteration_budget_respected_witness:
  "list_all (\<lambda>e. \<not> isReset e) [TimerFires sampleStamps] \<and>
   currentIteration (store (hook (sampleSystem [sampleTask ''t1'' Pending None])))
     \<le> currentIteration (store (hook (run sampleServices
          (sampleSystem [sampleTask ''t1'' Pending None]) [TimerFires sampleStamps]))) \<and>
   currentIteration (store (hook (run sampleServices
          (sampleSystem [sampleTask ''t1'' Pending None]) [TimerFires sampleStamps]))) = 1 \<and>
   isRunning (store ((sampleHook [sampleTask ''t1'' Pending None])
     \<lparr> store := (sampleState [sampleTask ''t1'' Pending None])\<lparr> currentIteration := 20 \<rparr> \<rparr>)) \<and>
   \<not> isPaused (store ((sampleHook [sampleTask ''t1'' Pending None])
     \<lparr> store := (sampleState [sampleTask ''t1'' Pending None])\<lparr> currentIteration := 20 \<rparr> \<rparr>)) \<and>
   maxIterations (store ((sampleHook [sampleTask ''t1'' Pending None])
     \<lparr> store := (sampleState [sampleTask ''t1'' Pending None])\<lparr> currentIteration := 20 \<rparr> \<rparr>))
     \<le> currentIteration (store ((sampleHook [sampleTask ''t1'' Pending None])
     \<lparr> store := (sampleState [sampleTask ''t1'' Pending None])\<lparr> currentIteration := 20 \<rparr> \<rparr>)) \<and>
   fst (executeAgentIteration sampleServices sampleStamps
         ((sampleHook [sampleTask ''t1'' Pending None])
           \<lparr> store := (sampleState [sampleTask ''t1'' Pending None])\<lparr> currentIteration := 20 \<rparr> \<rparr>))
     = BudgetHalt"
proof -
  let ?sys = "sampleSystem [sampleTask ''t1'' Pending None]"
  let ?h = "(sampleHook [sampleTask ''t1'' Pending None])
     \<lparr> store := (sampleState [sampleTask ''t1'' Pending None])\<lparr> currentIteration := 20 \<rparr> \<rparr>"
  have a: "list_all (\<lambda>e. \<not> isReset e) [TimerFires sampleStamps]" by simp
  have b: "isRunning (store ?h) \<and> \<not> isPaused (store ?h) \<and>
           maxIterations (store ?h) \<le> currentIteration (store ?h)"
    by (simp add: sample_defs)
  have c: "currentIteration (store (hook (run sampleServices ?sys [TimerFires sampleStamps]))) = 1"
    by (simp add: sample_defs loop_defs store_defs)
  from iteration_budget_respected
         [where evs = "[TimerFires sampleStamps]" and sys = ?sys and sv = sampleServices
            and h = ?h and st = sampleStamps] a b c
  show ?thesis by blast
qed

text \<open>
  The closure hook makes the same comparison before it starts anything; with the budget
  used up it throws at the call of \<open>setIsRunning\<close>, which the store does not have, and
  leaves the store as it was. It never changes the counter.
\<close>

lemma closure_hook_budget:
  "currentIteration (store (snd (executeAgentIteration_closure snap h)))
     = currentIteration (store h) \<and>
   (maxIterations snap \<le> currentIteration snap \<longrightarrow>
      executeAgentIteration_closure snap h
        = (TypeError ''store.setIsRunning is not a function'', h))"
  by (simp add: closure_defs Let_def store_defs)

section \<open>Failure of the executor\<close>

text \<open>
  Claim C4 at a failing input of the getState hook: the only task is started and its
  executor call rejects with \<open>Error('boom')\<close>. The task ends failed, but its result
  field is still unset; the claim has it hold the failure reason.
\<close>

theorem failed_task_result_left_unset:
  "map (\<lambda>t. (status t, result t)) (tasks (store (hook (run sampleServices
      (sampleSystem [sampleTask ''t1'' Pending None])
      [TimerFires sampleStamps,
       CallSettles 0 (Rejects (ErrorObject ''boom'')) sampleStamps 9]))))
   = [(Failed, None)]"
  by (simp add: sample_defs loop_defs store_defs)

text \<open>
  What the failure path of the getState hook does do: every task with the selected id
  becomes failed and is otherwise unchanged, one error entry carrying the reason is
  appended, and the flags and the timer are left alone.
\<close>

lemma getState_hook_failure_path:
  assumes "awaitedResult a = Inl e"
  shows "tasks (store (resumeAgentIteration sv st now c a h))
           = map (\<lambda>t. if t_id t = t_id (nextTask c) then t\<lparr> status := Failed \<rparr> else t)
               (tasks (store h)) \<and>
         map (\<lambda>l. (l_type l, message l)) (executionLog (store (resumeAgentIteration sv st now c a h)))
           = map (\<lambda>l. (l_type l, message l)) (executionLog (store h))
             @ [(Error, icon_cross @ '' Failed: '' @ errorMessage e)] \<and>
         isRunning (store (resumeAgentIteration sv st now c a h)) = isRunning (store h) \<and>
         isPaused (store (resumeAgentIteration sv st now c a h)) = isPaused (store h) \<and>
         agentLoopRef (resumeAgentIteration sv st now c a h) = agentLoopRef h"
  using assms by (simp add: resumeAgentIteration_def Let_def store_defs)

text \<open>No event other than a reset takes a task that is not pending back to pending.\<close>

lemma exec_keeps_resolved:
  "i < length (tasks (store h)) \<Longrightarrow>
   i < length (tasks (store (snd (executeAgentIteration sv st h)))) \<and>
   (status (tasks (store (snd (executeAgentIteration sv st h))) ! i) = Pending
      \<longrightarrow> status (tasks (store h) ! i) = Pending)"
  by (auto simp: executeAgentIteration_def Let_def store_defs nth_append split: option.splits)

lemma resume_keeps_resolved:
  "i < length (tasks (store h)) \<Longrightarrow>
   i < length (tasks (store (resumeAgentIteration sv st now c a h))) \<and>
   (status (tasks (store (resumeAgentIteration sv st now c a h)) ! i) = Pending
      \<longrightarrow> status (tasks (store h) ! i) = Pending)"
  by (auto simp: resumeAgentIteration_def Let_def store_defs nth_append split: sum.splits)

lemma never_back_to_pending:
  assumes "i < length (tasks (store (hook sys)))" and "\<not> isReset e"
  shows "i < length (tasks (store (hook (step sv sys e)))) \<and>
         (status (tasks (store (hook (step sv sys e))) ! i) = Pending
            \<longrightarrow> status (tasks (store (hook sys)) ! i) = Pending)"
proof (cases e)
  case (TimerFires st)
  then show ?thesis
    using assms(1) exec_keeps_resolved [of i "hook sys" sv st]
    by (simp add: case_prod_unfold hook_launch)
next
  case (EffectRuns st)
  then show ?thesis
    using assms(1) exec_keeps_resolved [of i "(hook sys)\<lparr> agentLoopRef := True \<rparr>" sv st]
    by (simp add: useEffect_def startAgentLoop_def stopAgentLoop_def Let_def
        case_prod_unfold hook_launch)
next
  case (CallSettles j a st now)
  then show ?thesis
    using assms(1) resume_keeps_resolved [of i "hook sys" sv st now "inflight sys ! j" a]
    by simp
next
  case OperatorPause
  then show ?thesis using assms(1) by (simp add: pauseAgent_def)
next
  case (OperatorReset now)
  then show ?thesis using assms(2) by simp
qed

section \<open>A call that settles after a pause or a reset\<close>

text \<open>
  Claim C5, as stated, fails. In delegated mode the tick awaits \<open>executeTaskWithAI\<close>.
  The operator pauses while this call is in flight, the call then resolves, and the task
  is completed with its result all the same; after a reset while the call is in flight,
  the success and result entries of the old call open the log of the new session.
\<close>

theorem result_applied_after_pause_and_reset:
  "map viaAI (inflight (run sampleServices
      (sampleDelegatedSystem [sampleTask ''t1'' Pending None])
      [TimerFires sampleStamps])) = [True] \<and>
   isPaused (store (hook (run sampleServices
      (sampleDelegatedSystem [sampleTask ''t1'' Pending None])
      [TimerFires sampleStamps, OperatorPause]))) \<and>
   map (\<lambda>t. (status t, result t)) (tasks (store (hook (run sampleServices
      (sampleDelegatedSystem [sampleTask ''t1'' Pending None])
      [TimerFires sampleStamps, OperatorPause,
       CallSettles 0 (AIResponse ''done'' None) sampleStamps 9]))))
     = [(Completed, Some ''done'')] \<and>
   map l_type (executionLog (store (hook (run sampleServices
      (sampleDelegatedSystem [sampleTask ''t1'' Pending None])
      [TimerFires sampleStamps, OperatorReset 8,
       CallSettles 0 (AIResponse ''done'' None) sampleStamps 9]))))
     = [Success, Result]"
  by (simp add: sample_defs loop_defs store_defs)

text \<open>
  Claim C5, amended: the continuation of a settled call, delegated or simulated, consults
  neither \<open>isRunning\<close> nor \<open>isPaused\<close>; it commits the same mutation whatever the
  flags are. On success every task of the live sequence that carries the selected id is
  completed with the result, the follow-up tasks are appended, and the success and result
  entries are appended to the live log; on failure every such task is failed. When the
  call settles right after a reset, the live sequence is empty: no task changes, the
  follow-up tasks become the tasks of the new session, and the success and result entries
  open its log.
\<close>

theorem settled_call_committed_regardless_of_flags:
  "store (resumeAgentIteration sv st now c a
            (h\<lparr> store := (store h)\<lparr> isRunning := r, isPaused := p \<rparr> \<rparr>))
     = (store (resumeAgentIteration sv st now c a h))\<lparr> isRunning := r, isPaused := p \<rparr> \<and>
   (\<forall>res. awaitedResult a = Inr res \<longrightarrow>
      tasks (store (resumeAgentIteration sv st now c a h))
        = map (\<lambda>t. if t_id t = t_id (nextTask c)
                   then t\<lparr> status := Completed, result := Some res, completedAt := Some now \<rparr>
                   else t) (tasks (store h))
          @ generateFollowUpTasks sv (nextTask c) res (objective (heldState c)) \<and>
      map l_type (take (length (executionLog (store h)) + 2)
                    (executionLog (store (resumeAgentIteration sv st now c a h))))
        = map l_type (executionLog (store h)) @ [Success, Result]) \<and>
   (\<forall>e. awaitedResult a = Inl e \<longrightarrow>
      tasks (store (resumeAgentIteration sv st now c a h))
        = map (\<lambda>t. if t_id t = t_id (nextTask c) then t\<lparr> status := Failed \<rparr> else t)
            (tasks (store h))) \<and>
   (\<forall>res t. awaitedResult a = Inr res \<longrightarrow>
      tasks (store (resumeAgentIteration sv st now c a
                      (h\<lparr> store := resetAgent t (store h) \<rparr>)))
        = generateFollowUpTasks sv (nextTask c) res (objective (heldState c)) \<and>
      map l_type (take 2 (executionLog (store (resumeAgentIteration sv st now c a
                      (h\<lparr> store := resetAgent t (store h) \<rparr>)))))
        = [Success, Result])"
  by (simp add: resumeAgentIteration_def Let_def store_defs split: sum.splits)

theorem settled_call_committed_regardless_of_flags_witness:
  "awaitedResult (AIResponse ''done'' None) = Inr ''done'' \<and>
   viaAI \<lparr> heldState = sampleDelegatedState [sampleTask ''t1'' Pending None],
           nextTask = sampleTask ''t1'' Pending None, viaAI = True \<rparr> \<and>
   isPaused (store (\<lparr> store = (sampleDelegatedState [sampleTask ''t1'' Running None])
                               \<lparr> isPaused := True \<rparr>,
                      agentLoopRef = False \<rparr>)) \<and>
   map (\<lambda>t. (status t, result t))
     (tasks (store (resumeAgentIteration sampleServices sampleStamps 9
        \<lparr> heldState = sampleDelegatedState [sampleTask ''t1'' Pending None],
          nextTask = sampleTask ''t1'' Pending None, viaAI = True \<rparr>
        (AIResponse ''done'' None)
        \<lparr> store = (sampleDelegatedState [sampleTask ''t1'' Running None])\<lparr> isPaused := True \<rparr>,
          agentLoopRef = False \<rparr>))) = [(Completed, Some ''done'')]"
proof -
  let ?c = "\<lparr> heldState = sampleDelegatedState [sampleTask ''t1'' Pending None],
              nextTask = sampleTask ''t1'' Pending None, viaAI = True \<rparr>"
  let ?h = "\<lparr> store = (sampleDelegatedState [sampleTask ''t1'' Running None])
                        \<lparr> isPaused := True \<rparr>,
              agentLoopRef = False \<rparr>"
  have a: "awaitedResult (AIResponse ''done'' None) = Inr ''done''"
    by (simp add: awaitedResult_def)
  from settled_call_committed_regardless_of_flags
         [where sv = sampleServices and st = sampleStamps and now = 9 and c = ?c
            and a = "AIResponse ''done'' None" and h = ?h and r = True and p = True] a
  have "tasks (store (resumeAgentIteration sampleServices sampleStamps 9 ?c
                        (AIResponse ''done'' None) ?h))
          = map (\<lambda>t. if t_id t = t_id (nextTask ?c)
                     then t\<lparr> status := Completed, result := Some ''done'', completedAt := Some 9 \<rparr>
                     else t) (tasks (store ?h))
            @ generateFollowUpTasks sampleServices (nextTask ?c) ''done'' (objective (heldState ?c))"
    by blast
  then have "map (\<lambda>t. (status t, result t))
               (tasks (store (resumeAgentIteration sampleServices sampleStamps 9 ?c
                        (AIResponse ''done'' None) ?h))) = [(Completed, Some ''done'')]"
    by (simp add: sample_defs)
  with a show ?thesis by (simp add: sample_defs)
qed

text \<open>
  The id decides, not the session: a task that the new session has added under the id of
  the old call's task is completed with the old call's result.
\<close>

lemma stale_result_reaches_reused_id:
  "map (\<lambda>t. (status t, result t))
     (tasks (store (resumeAgentIteration sampleServices sampleStamps 9
        \<lparr> heldState = sampleDelegatedState [sampleTask ''t1'' Pending None],
          nextTask = sampleTask ''t1'' Pending None, viaAI = True \<rparr>
        (AIResponse ''done'' None)
        \<lparr> store = addTask (sampleTask ''t1'' Pending None)
                    (resetAgent 8 (sampleDelegatedState [sampleTask ''t1'' Running None])),
          agentLoopRef = True \<rparr>))) = [(Completed, Some ''done'')]"
  by (simp add: resumeAgentIteration_def awaitedResult_def Let_def store_defs addTask_def
      sample_defs)

section \<open>Stopping when everything is resolved\<close>

lemma selectNext_None_resolved:
  assumes "set (prioritizeTasks sv (tasks state)) \<subseteq> set (tasks state)"
    and "\<forall>t\<in>set (tasks state). status t = Pending \<longrightarrow> hasPendingDependencies t (tasks state)"
  shows "selectNext sv state = None"
  using assms by (auto simp: selectNext_def find_None_iff)

lemma allCompleted_only_if:
  assumes "fst (executeAgentIteration sv st h) = AllCompleted"
  shows "(\<forall>t\<in>set (tasks (store h)). status t = Completed \<or> status t = Failed) \<and>
         (\<exists>t\<in>set (tasks (store h)). status t = Completed) \<and>
         isPaused (store (snd (executeAgentIteration sv st h))) \<and>
         \<not> agentLoopRef (snd (executeAgentIteration sv st h)) \<and>
         tasks (store (snd (executeAgentIteration sv st h))) = tasks (store h) \<and>
         map l_type (executionLog (store (snd (executeAgentIteration sv st h))))
           = map l_type (executionLog (store h)) @ [Milestone]"
  using assms
  by (auto simp: executeAgentIteration_def Let_def store_defs list_all_iff filter_empty_conv
      split: if_splits option.splits)

lemma allCompleted_if:
  assumes "isRunning (store h)" and "\<not> isPaused (store h)"
    and "currentIteration (store h) < maxIterations (store h)"
    and "set (prioritizeTasks sv (tasks (store h))) \<subseteq> set (tasks (store h))"
    and "\<forall>t\<in>set (tasks (store h)). status t = Completed \<or> status t = Failed"
    and "\<exists>t\<in>set (tasks (store h)). status t = Completed"
  shows "fst (executeAgentIteration sv st h) = AllCompleted"
proof -
  have "selectNext sv (store h) = None"
    using assms(4,5) by (intro selectNext_None_resolved) auto
  then show ?thesis using assms(1,2,3,5,6)
    by (auto simp: executeAgentIteration_def Let_def list_all_iff filter_empty_conv)
qed

lemma blocked_tick_is_noop:
  assumes "isRunning (store h)" and "\<not> isPaused (store h)"
    and "currentIteration (store h) < maxIterations (store h)"
    and "set (prioritizeTasks sv (tasks (store h))) \<subseteq> set (tasks (store h))"
    and "\<exists>t\<in>set (tasks (store h)). status t = Pending"
    and "\<forall>t\<in>set (tasks (store h)). status t = Pending
           \<longrightarrow> hasPendingDependencies t (tasks (store h))"
  shows "executeAgentIteration sv st h = (NoOp, h)"
proof -
  have "selectNext sv (store h) = None"
    using assms(4,6) by (rule selectNext_None_resolved)
  then show ?thesis using assms(1,2,3,5)
    by (auto simp: executeAgentIteration_def Let_def list_all_iff)
qed

text \<open>
  Claim C6, for the getState hook. A tick ends in the completed state only if every task
  is completed or failed and some task is completed, and it then appends one milestone
  entry, pauses, clears the timer and leaves the tasks as they are. Conversely, a tick
  that reaches the selecting phase (agent running, not paused, budget not used up; the
  prioritizer returns tasks of the sequence it was given) ends in the completed state
  whenever every task is completed or failed and some task is completed. Such a tick
  changes nothing at all (it does not stop the loop and fails no task) when some task is
  pending and every pending task is blocked by a dependency that is not completed.
\<close>

theorem stopped_complete_iff_all_resolved:
  "(fst (executeAgentIteration sv st h) = AllCompleted \<longrightarrow>
      (\<forall>t\<in>set (tasks (store h)). status t = Completed \<or> status t = Failed) \<and>
      (\<exists>t\<in>set (tasks (store h)). status t = Completed) \<and>
      isPaused (store (snd (executeAgentIteration sv st h))) \<and>
      \<not> agentLoopRef (snd (executeAgentIteration sv st h)) \<and>
      tasks (store (snd (executeAgentIteration sv st h))) = tasks (store h) \<and>
      map l_type (executionLog (store (snd (executeAgentIteration sv st h))))
        = map l_type (executionLog (store h)) @ [Milestone]) \<and>
   (isRunning (store h) \<and> \<not> isPaused (store h) \<and>
    currentIteration (store h) < maxIterations (store h) \<and>
    set (prioritizeTasks sv (tasks (store h))) \<subseteq> set (tasks (store h)) \<longrightarrow>
      ((\<forall>t\<in>set (tasks (store h)). status t = Completed \<or> status t = Failed) \<and>
       (\<exists>t\<in>set (tasks (store h)). status t = Completed)
         \<longrightarrow> fst (executeAgentIteration sv st h) = AllCompleted) \<and>
      ((\<exists>t\<in>set (tasks (store h)). status t = Pending) \<and>
       (\<forall>t\<in>set (tasks (store h)). status t = Pending
           \<longrightarrow> hasPendingDependencies t (tasks (store h)))
         \<longrightarrow> executeAgentIteration sv st h = (NoOp, h)))"
  using allCompleted_only_if [of sv st h] allCompleted_if [of h sv st]
    blocked_tick_is_noop [of h sv st]
  by blast

theorem stopped_complete_iff_all_resolved_witness:
  "isRunning (store (sampleHook [sampleTask ''t1'' Completed None, sampleTask ''t2'' Failed None])) \<and>
   \<not> isPaused (store (sampleHook [sampleTask ''t1'' Completed None, sampleTask ''t2'' Failed None])) \<and>
   currentIteration (store (sampleHook [sampleTask ''t1'' Completed None, sampleTask ''t2'' Failed None]))
     < maxIterations (store (sampleHook [sampleTask ''t1'' Completed None, sampleTask ''t2'' Failed None])) \<and>
   set (prioritizeTasks sampleServices
          (tasks (store (sampleHook [sampleTask ''t1'' Completed None, sampleTask ''t2'' Failed None]))))
     \<subseteq> set (tasks (store (sampleHook [sampleTask ''t1'' Completed None, sampleTask ''t2'' Failed None]))) \<and>
   list_all (\<lambda>t. status t = Completed \<or> status t = Failed)
     (tasks (store (sampleHook [sampleTask ''t1'' Completed None, sampleTask ''t2'' Failed None]))) \<and>
   list_ex (\<lambda>t. status t = Completed)
     (tasks (store (sampleHook [sampleTask ''t1'' Completed None, sampleTask ''t2'' Failed None]))) \<and>
   fst (executeAgentIteration sampleServices sampleStamps
          (sampleHook [sampleTask ''t1'' Completed None, sampleTask ''t2'' Failed None]))
     = AllCompleted \<and>
   isPaused (store (snd (executeAgentIteration sampleServices sampleStamps
          (sampleHook [sampleTask ''t1'' Completed None, sampleTask ''t2'' Failed None])))) \<and>
   list_ex (\<lambda>t. status t = Pending)
     (tasks (store (sampleHook [sampleTask ''t1'' Pending (Some [''t2'']),
                                sampleTask ''t2'' Failed None]))) \<and>
   list_all (\<lambda>t. status t \<noteq> Pending \<or> hasPendingDependencies t
               (tasks (store (sampleHook [sampleTask ''t1'' Pending (Some [''t2'']),
                                          sampleTask ''t2'' Failed None]))))
     (tasks (store (sampleHook [sampleTask ''t1'' Pending (Some [''t2'']),
                                sampleTask ''t2'' Failed None]))) \<and>
   executeAgentIteration sampleServices sampleStamps
       (sampleHook [sampleTask ''t1'' Pending (Some [''t2'']), sampleTask ''t2'' Failed None])
     = (NoOp, sampleHook [sampleTask ''t1'' Pending (Some [''t2'']), sampleTask ''t2'' Failed None])"
proof -
  let ?done = "sampleHook [sampleTask ''t1'' Completed None, sampleTask ''t2'' Failed None]"
  let ?blocked = "sampleHook [sampleTask ''t1'' Pending (Some [''t2'']),
                              sampleTask ''t2'' Failed None]"
  have g1: "isRunning (store ?done) \<and> \<not> isPaused (store ?done) \<and>
            currentIteration (store ?done) < maxIterations (store ?done) \<and>
            set (prioritizeTasks sampleServices (tasks (store ?done))) \<subseteq> set (tasks (store ?done))"
    by (simp add: sample_defs)
  have a1: "list_all (\<lambda>t. status t = Completed \<or> status t = Failed) (tasks (store ?done))"
    by (simp add: sample_defs)
  have e1: "list_ex (\<lambda>t. status t = Completed) (tasks (store ?done))"
    by (simp add: sample_defs)
  have g2: "isRunning (store ?blocked) \<and> \<not> isPaused (store ?blocked) \<and>
            currentIteration (store ?blocked) < maxIterations (store ?blocked) \<and>
            set (prioritizeTasks sampleServices (tasks (store ?blocked)))
              \<subseteq> set (tasks (store ?blocked))"
    by (simp add: sample_defs)
  have p2: "list_ex (\<lambda>t. status t = Pending) (tasks (store ?blocked))"
    by (simp add: sample_defs)
  have b2: "list_all (\<lambda>t. status t \<noteq> Pending \<or> hasPendingDependencies t (tasks (store ?blocked)))
              (tasks (store ?blocked))"
    by (simp add: sample_defs hasPendingDependencies_def)
  have a1': "\<forall>t\<in>set (tasks (store ?done)). status t = Completed \<or> status t = Failed"
    using a1 unfolding list_all_iff .
  have e1': "\<exists>t\<in>set (tasks (store ?done)). status t = Completed"
    using e1 unfolding list_ex_iff .
  have p2': "\<exists>t\<in>set (tasks (store ?blocked)). status t = Pending"
    using p2 unfolding list_ex_iff .
  have b2': "\<forall>t\<in>set (tasks (store ?blocked)). status t = Pending
               \<longrightarrow> hasPendingDependencies t (tasks (store ?blocked))"
    using b2 unfolding list_all_iff by blast
  from stopped_complete_iff_all_resolved [of sampleServices sampleStamps ?done] g1 a1' e1'
  have c1: "fst (executeAgentIteration sampleServices sampleStamps ?done) = AllCompleted"
    by blast
  with stopped_complete_iff_all_resolved [of sampleServices sampleStamps ?done]
  have c2: "isPaused (store (snd (executeAgentIteration sampleServices sampleStamps ?done)))"
    by blast
  from stopped_complete_iff_all_resolved [of sampleServices sampleStamps ?blocked] g2 p2' b2'
  have c3: "executeAgentIteration sampleServices sampleStamps ?blocked = (NoOp, ?blocked)"
    by blast
  show ?thesis
    by (intro conjI) (use g1 a1 e1 c1 c2 p2 b2 c3 in \<open>blast+\<close>)
qed

text \<open>
  The closure hook never gets as far: whenever no task is pending in its closure it
  throws at the call of \<open>setIsRunning\<close>, which the store does not have, before it logs
  anything, and the store is left as it was.
\<close>

lemma closure_hook_stop_branch_throws:
  "filter (\<lambda>t. status t = Pending) (tasks snap) = [] \<Longrightarrow>
   executeAgentIteration_closure snap h = (TypeError ''store.setIsRunning is not a function'', h)"
  by (simp add: closure_defs)

section \<open>Milestone entries\<close>




end
